theory Spec2Isabelle
  imports Complex_Main
begin

section \<open>Data model of \<open>canvas.cpp\<close>\<close>

text \<open>
  Identifiers and handles are opaque numbers in the program. A Windows \<open>POINT\<close> is a
  pair of coordinates. A \<open>float\<close> is modelled by the real number it denotes; the
  theorems below only evaluate it on small integers, which \<open>float\<close> represents exactly.
\<close>

type_synonym PLOT_ID = nat
type_synonym HWND = nat
type_synonym HBITMAP = nat
type_synonym POINT = "int \<times> int"
type_synonym addr = nat

text \<open>
  Modelled from the spec: the declaration of \<open>AXIS_TYPE\<close> (\<open>standard.h\<close>) is not part of
  the sources. \<open>canvas.cpp\<close> names the members \<open>CART_2D\<close> and \<open>SPECIAL\<close>; every other
  member is an \<open>AXIS_OTHER\<close>.
\<close>

datatype AXIS_TYPE = CART_2D | SPECIAL | AXIS_OTHER nat

text \<open>The four \<open>std::logic_error\<close>s thrown in \<open>canvas.cpp\<close>, told apart by their message.\<close>

datatype LogicError =
    SpecialWithOthers
  | AxisTypeMismatch
  | BinaryInsertFailed
  | AxisTypeUnimplemented

text \<open>
  Undefined behaviour of the C++ program, made explicit: a read through a pointer to a
  deleted array, a \<open>delete[]\<close> of an array that is not live, a read beyond an array, a
  plot id that the registry does not hold, a data range of no points, and the use of the
  canvas arrays before \<open>setAxisType\<close> has allocated them.
\<close>

datatype Fault =
    UseAfterFree
  | InvalidFree
  | OutOfBounds
  | UnknownPlot
  | NoData
  | ArraysNotAllocated

text \<open>The private members of \<open>class Axis\<close> that the canvas code depends on.\<close>

record Axis =
  logarithmic :: bool
  fixEnds :: bool
  maxT :: real
  minT :: real
  major :: real
  minor :: real

text \<open>
  \<open>Series<int, int>\<close>, one of the instantiations of the template: the step \<open>skip\<close>, the
  pointer \<open>data\<close> into the store of arrays, and the number of points \<open>sizeData\<close>.
\<close>

record Series =
  skip :: int
  data :: addr
  sizeData :: nat

text \<open>
  The state outside the canvas object: the plot registry (plot id to plot object), the
  store of \<open>int\<close> arrays (\<open>cells\<close> holds the live ones; \<open>next_addr\<close> is the address the
  next \<open>new[]\<close> returns, which no live array and no pointer held by the program has),
  the global tables \<open>terminateCanvas\<close> and \<open>hwndToBitmap\<close>, the live GDI bitmaps, and
  the client rectangle \<open>(left, top, right, bottom)\<close> of every window.
\<close>

type_synonym RECT = "int \<times> int \<times> int \<times> int"

record World =
  registry :: "PLOT_ID \<rightharpoonup> Series"
  cells :: "addr \<rightharpoonup> int list"
  next_addr :: addr
  terminateCanvas :: "HWND \<rightharpoonup> bool"
  hwndToBitmap :: "HWND \<rightharpoonup> HBITMAP"
  gdiObjects :: "HBITMAP set"
  clientRect :: "HWND \<Rightarrow> RECT"

text \<open>
  The members of \<open>Canvas\<close> that \<open>canvas.cpp\<close> reads and writes. The arrays
  \<open>axisLimits\<close>, \<open>drawSpace\<close> and \<open>axes\<close> are lists; the identity counter, the style
  and the background brush play no part in any property below and are left out.
\<close>

record Canvas =
  plots :: "PLOT_ID list"
  axisType :: AXIS_TYPE
  axisLimits :: "real list"
  drawSpace :: "POINT list"
  axes :: "Axis list"
  framerate :: int
  hwnd :: HWND
  killed :: bool

text \<open>
  What \<open>canvas.cpp\<close> takes from the rest of the program, as parameters:
  the plot registry's look-ups \<open>getPlotType\<close> (already cast to \<open>int\<close>) and
  \<open>getPlotAxisType\<close>; the constants \<open>SP_STATIC\<close> and \<open>SP_BORDER_WIDTH\<close>; the
  undetermined contents of freshly allocated arrays; \<open>Axis::setMajorMinor\<close> and
  \<open>Axis::getClearance\<close>, of which only the declarations are given; and what the window
  procedure does to the state when one message is dispatched.

  \<open>pastEndOrder\<close> is the value of \<open>(int)getPlotType(*end)\<close> in \<open>addPlot\<close>, where
  \<open>end = plots.end()\<close>: the read is one element past the vector, so its value is
  whatever lies there. It may depend on the vector, and nothing is assumed about it.
\<close>

record Env =
  getPlotType :: "PLOT_ID \<Rightarrow> int"
  getPlotAxisType :: "PLOT_ID \<Rightarrow> AXIS_TYPE"
  pastEndOrder :: "PLOT_ID list \<Rightarrow> int"
  SP_STATIC :: int
  SP_BORDER_WIDTH :: int
  fresh_axisLimits :: "real list"
  fresh_drawSpace :: "POINT list"
  fresh_axes :: "Axis list"
  setMajorMinor :: "Axis \<Rightarrow> Axis"
  getClearance :: "Axis \<Rightarrow> int"
  dispatchMessage :: "World \<Rightarrow> World"

section \<open>Plot membership: \<open>setAxisType\<close>, \<open>addPlot\<close>, \<open>removePlot\<close>\<close>

text \<open>\<open>Canvas::setAxisType\<close>: allocates the arrays for \<open>CART_2D\<close>, throws for every other type.\<close>

definition setAxisType :: "Env \<Rightarrow> Canvas \<Rightarrow> LogicError + Canvas" where
  "setAxisType env c =
     (case axisType c of
        CART_2D \<Rightarrow>
          Inr (c\<lparr>axisLimits := fresh_axisLimits env,
                 drawSpace := fresh_drawSpace env,
                 axes := fresh_axes env\<rparr>)
      | _ \<Rightarrow> Inl AxisTypeUnimplemented)"

text \<open>
  The plot-type order read through an iterator at index \<open>i\<close> of \<open>plots\<close>. Index
  \<open>plots.size()\<close> is the \<open>end()\<close> iterator.
\<close>

definition orderAt :: "Env \<Rightarrow> PLOT_ID list \<Rightarrow> nat \<Rightarrow> int" where
  "orderAt env ps i = (if i < length ps then getPlotType env (ps ! i) else pastEndOrder env ps)"

text \<open>
  The \<open>while (beginOrder != endOrder)\<close> loop of \<open>addPlot\<close>. Iterators are indices into
  \<open>plots\<close>; \<open>middle\<close> and \<open>middleOrder\<close> are written out where they are used; the
  result is \<open>(begin, beginOrder)\<close> at loop exit. \<open>begin\<close> never passes \<open>end\<close> (an
  invariant carried by \<open>binary_search_inv_aux\<close> below), so \<open>std::distance(begin, end)\<close>
  is the difference of the two indices. The loop need not terminate, so its result is
  optional: \<open>None\<close> is a loop that runs for ever.
\<close>

partial_function (option) binary_search ::
  "Env \<Rightarrow> PLOT_ID list \<Rightarrow> int \<Rightarrow> nat \<Rightarrow> int \<Rightarrow> nat \<Rightarrow> int \<Rightarrow> (nat \<times> int) option" where
  "binary_search env ps thisOrder begin beginOrder end endOrder =
     (if beginOrder \<noteq> endOrder then
        (if orderAt env ps (begin + (end - begin) div 2) > thisOrder
         then binary_search env ps thisOrder
                (begin + (end - begin) div 2) (orderAt env ps (begin + (end - begin) div 2))
                end endOrder
         else binary_search env ps thisOrder
                begin beginOrder
                (begin + (end - begin) div 2) (orderAt env ps (begin + (end - begin) div 2)))
      else Some (begin, beginOrder))"

text \<open>
  \<open>Canvas::addPlot\<close>. The outcome is \<open>None\<close> when the call does not return,
  \<open>Some (Inl (e, c'))\<close> when it throws \<open>e\<close> and leaves the canvas as \<open>c'\<close>, and
  \<open>Some (Inr c')\<close> when it returns. On an empty canvas the plot is pushed before
  \<open>setAxisType\<close> can throw, so the canvas at the throw already holds it.
\<close>

definition addPlot :: "Env \<Rightarrow> Canvas \<Rightarrow> PLOT_ID \<Rightarrow> (LogicError \<times> Canvas + Canvas) option" where
  "addPlot env c plotID =
     (if length (plots c) = 0 then
        (let c1 = c\<lparr>plots := plots c @ [plotID]\<rparr>;
             c2 = c1\<lparr>axisType := getPlotAxisType env plotID\<rparr>
         in case setAxisType env c2 of
              Inl e \<Rightarrow> Some (Inl (e, c2))
            | Inr c3 \<Rightarrow> Some (Inr c3))
      else
        (let thisOrder = getPlotType env plotID;
             begin = 0;
             end = length (plots c);
             beginOrder = orderAt env (plots c) begin;
             endOrder = orderAt env (plots c) end
         in case binary_search env (plots c) thisOrder begin beginOrder end endOrder of
              None \<Rightarrow> None
            | Some (begin', beginOrder') \<Rightarrow>
                if beginOrder' \<noteq> thisOrder then Some (Inl (BinaryInsertFailed, c))
                else Some (Inr (c\<lparr>plots := take begin' (plots c) @ [plotID] @ drop begin' (plots c)\<rparr>))))"

text \<open>\<open>std::find\<close>: the index of the first occurrence, or \<open>None\<close> for \<open>end()\<close>.\<close>

fun find_first :: "PLOT_ID list \<Rightarrow> PLOT_ID \<Rightarrow> nat option" where
  "find_first [] plotID = None"
| "find_first (p # ps) plotID =
     (if p = plotID then Some 0
      else case find_first ps plotID of None \<Rightarrow> None | Some i \<Rightarrow> Some (Suc i))"

text \<open>\<open>Canvas::removePlot\<close>: returns at once when the plot is not found, erases it otherwise.\<close>

definition removePlot :: "Canvas \<Rightarrow> PLOT_ID \<Rightarrow> Canvas" where
  "removePlot c plotID =
     (case find_first (plots c) plotID of
        None \<Rightarrow> c
      | Some it \<Rightarrow> c\<lparr>plots := take it (plots c) @ drop (Suc it) (plots c)\<rparr>)"

text \<open>\<open>Canvas::isEmpty\<close>.\<close>

definition isEmpty :: "Canvas \<Rightarrow> bool" where
  "isEmpty c = (length (plots c) = 0)"

text \<open>
  \<open>Canvas::Canvas\<close>. \<open>c0\<close> is the object before the constructor body runs: its
  members hold their default initialisers (given in \<open>canvas.h\<close>, not part of the sources),
  and \<open>plots\<close> is the empty vector. A constructor that throws yields no object.
\<close>

fun ctor_loop :: "Env \<Rightarrow> Canvas \<Rightarrow> PLOT_ID list \<Rightarrow> (LogicError + Canvas) option" where
  "ctor_loop env c [] = Some (Inr c)"
| "ctor_loop env c (i # ids) =
     (if axisType c \<noteq> getPlotAxisType env i then Some (Inl AxisTypeMismatch)
      else case addPlot env c i of
             None \<Rightarrow> None
           | Some (Inl (e, _)) \<Rightarrow> Some (Inl e)
           | Some (Inr c') \<Rightarrow> ctor_loop env c' ids)"

definition Canvas_ctor :: "Env \<Rightarrow> Canvas \<Rightarrow> PLOT_ID list \<Rightarrow> (LogicError + Canvas) option" where
  "Canvas_ctor env c0 plots' =
     (let c = c0\<lparr>plots := []\<rparr> in
      if length plots' = 0 then Some (Inr c)
      else
        (let c1 = c\<lparr>axisType := getPlotAxisType env (plots' ! 0)\<rparr> in
         if length plots' > 1 \<and> axisType c1 = SPECIAL then Some (Inl SpecialWithOthers)
         else case ctor_loop env c1 plots' of
                None \<Rightarrow> None
              | Some (Inl e) \<Rightarrow> Some (Inl e)
              | Some (Inr c2) \<Rightarrow>
                  (case setAxisType env c2 of Inl e \<Rightarrow> Some (Inl e) | Inr c3 \<Rightarrow> Some (Inr c3))))"

text \<open>
  The plot lists on which the constructor does not return. While the plots it has added
  are all of the plot-type order \<open>t\<close> of the first one, the member vector \<open>ps\<close> holds them
  newest first. \<open>reaches_hang\<close> follows the rest of the list: a plot of another axis type
  ends the constructor with a throw, a plot of order \<open>t\<close> is added, and any other plot
  ends it too, by a throw of \<open>addPlot\<close> or, when its order is below \<open>t\<close> and the read
  past the end of the vector does not yield \<open>t\<close>, by a search that runs for ever.
  \<open>Canvas_ctor_None_iff\<close> below proves that these are exactly the lists on which
  \<open>Canvas_ctor\<close> is \<open>None\<close>.
\<close>

fun reaches_hang :: "Env \<Rightarrow> AXIS_TYPE \<Rightarrow> int \<Rightarrow> PLOT_ID list \<Rightarrow> PLOT_ID list \<Rightarrow> bool" where
  "reaches_hang env a t ps [] = False"
| "reaches_hang env a t ps (i # ids) =
     (getPlotAxisType env i = a \<and>
      (if getPlotType env i = t then reaches_hang env a t (i # ps) ids
       else getPlotType env i < t \<and> pastEndOrder env ps \<noteq> t))"

definition ctor_hangs :: "Env \<Rightarrow> PLOT_ID list \<Rightarrow> bool" where
  "ctor_hangs env ids =
     (case ids of
        [] \<Rightarrow> False
      | i # rest \<Rightarrow>
          getPlotAxisType env i = CART_2D
          \<and> reaches_hang env CART_2D (getPlotType env i) [i] rest)"

text \<open>
  A sequence of membership operations on one canvas. A caller may catch a
  \<open>LogicError\<close> and go on, so the canvas after a throwing call is the canvas at the throw;
  a call that never returns ends the sequence without a canvas.
\<close>

datatype membership_op = AddPlot PLOT_ID | RemovePlot PLOT_ID

fun apply_op :: "Env \<Rightarrow> Canvas \<Rightarrow> membership_op \<Rightarrow> Canvas option" where
  "apply_op env c (AddPlot p) =
     (case addPlot env c p of
        None \<Rightarrow> None
      | Some (Inl (e, c')) \<Rightarrow> Some c'
      | Some (Inr c') \<Rightarrow> Some c')"
| "apply_op env c (RemovePlot p) = Some (removePlot c p)"

fun run_ops :: "Env \<Rightarrow> Canvas \<Rightarrow> membership_op list \<Rightarrow> Canvas option" where
  "run_ops env c [] = Some c"
| "run_ops env c (x # xs) =
     (case apply_op env c x of None \<Rightarrow> None | Some c' \<Rightarrow> run_ops env c' xs)"

text \<open>The member plots are sorted by plot type from greatest to least.\<close>

definition plots_sorted :: "Env \<Rightarrow> Canvas \<Rightarrow> bool" where
  "plots_sorted env c = sorted_wrt (\<lambda>a b. a \<ge> b) (map (getPlotType env) (plots c))"

section \<open>The series plot\<close>

text \<open>Reading the first \<open>n\<close> elements of the array at \<open>a\<close>.\<close>

definition read_array :: "World \<Rightarrow> addr \<Rightarrow> nat \<Rightarrow> Fault + int list" where
  "read_array w a n =
     (case cells w a of
        None \<Rightarrow> Inl UseAfterFree
      | Some buf \<Rightarrow> if n \<le> length buf then Inr (take n buf) else Inl OutOfBounds)"

text \<open>
  Modelled from the spec: \<open>Stats::minValue\<close> and \<open>Stats::maxValue\<close> (\<open>stats.h\<close>) are not
  part of the sources. They are the least and the greatest of the data points, which is
  the data range the spec has a plot report; of no points there is no such value.
\<close>

definition minValue :: "int list \<Rightarrow> int option" where
  "minValue xs = (case xs of [] \<Rightarrow> None | x # r \<Rightarrow> Some (fold min r x))"

definition maxValue :: "int list \<Rightarrow> int option" where
  "maxValue xs = (case xs of [] \<Rightarrow> None | x # r \<Rightarrow> Some (fold max r x))"

text \<open>
  \<open>Series::getAxisLimits\<close>: four assignments into the caller's array, here the list
  \<open>lims\<close>, which is returned updated.
\<close>

definition Series_getAxisLimits :: "World \<Rightarrow> Series \<Rightarrow> real list \<Rightarrow> Fault + real list" where
  "Series_getAxisLimits w s lims =
     (case read_array w (data s) (sizeData s) of
        Inl f \<Rightarrow> Inl f
      | Inr xs \<Rightarrow>
          (case (minValue xs, maxValue xs) of
             (Some mn, Some mx) \<Rightarrow>
               Inr (lims[0 := 0,
                        1 := real_of_int (int (sizeData s) - 1) * real_of_int (skip s),
                        2 := real_of_int mn,
                        3 := real_of_int mx])
           | _ \<Rightarrow> Inl NoData))"

text \<open>
  \<open>Series::isolateData\<close>: a new array, the copy of \<open>sizeData\<close> elements into it, and
  \<open>data\<close> redirected to it. The old value of \<open>data\<close> is not kept anywhere.
\<close>

definition Series_isolateData :: "World \<Rightarrow> Series \<Rightarrow> Fault + World \<times> Series" where
  "Series_isolateData w s =
     (case read_array w (data s) (sizeData s) of
        Inl f \<Rightarrow> Inl f
      | Inr xs \<Rightarrow>
          (let newData = next_addr w;
               w' = w\<lparr>cells := (cells w)(newData \<mapsto> xs), next_addr := Suc (next_addr w)\<rparr>
           in Inr (w', s\<lparr>data := newData\<rparr>)))"

text \<open>\<open>Series::deleteData\<close>: \<open>delete[] data\<close>; the member \<open>data\<close> keeps its value.\<close>

definition Series_deleteData :: "World \<Rightarrow> Series \<Rightarrow> Fault + World \<times> Series" where
  "Series_deleteData w s =
     (if data s \<in> dom (cells w)
      then Inr (w\<lparr>cells := (cells w)(data s := None)\<rparr>, s)
      else Inl InvalidFree)"

text \<open>
  Modelled from the spec: the registry functions \<open>getPlotAxisLimits\<close>,
  \<open>isolatePlotData\<close> and \<open>deletePlotData\<close> (\<open>plots/plot.h\<close>) are not part of the sources.
  Each looks the plot up by its id and calls the plot's own \<open>getAxisLimits\<close>,
  \<open>isolateData\<close> or \<open>deleteData\<close>.
\<close>

definition getPlotAxisLimits :: "World \<Rightarrow> PLOT_ID \<Rightarrow> real list \<Rightarrow> Fault + real list" where
  "getPlotAxisLimits w i lims =
     (case registry w i of None \<Rightarrow> Inl UnknownPlot | Some s \<Rightarrow> Series_getAxisLimits w s lims)"

definition isolatePlotData :: "World \<Rightarrow> PLOT_ID \<Rightarrow> Fault + World" where
  "isolatePlotData w i =
     (case registry w i of
        None \<Rightarrow> Inl UnknownPlot
      | Some s \<Rightarrow>
          (case Series_isolateData w s of
             Inl f \<Rightarrow> Inl f
           | Inr (w', s') \<Rightarrow> Inr (w'\<lparr>registry := (registry w')(i \<mapsto> s')\<rparr>)))"

definition deletePlotData :: "World \<Rightarrow> PLOT_ID \<Rightarrow> Fault + World" where
  "deletePlotData w i =
     (case registry w i of
        None \<Rightarrow> Inl UnknownPlot
      | Some s \<Rightarrow>
          (case Series_deleteData w s of
             Inl f \<Rightarrow> Inl f
           | Inr (w', s') \<Rightarrow> Inr (w'\<lparr>registry := (registry w')(i \<mapsto> s')\<rparr>)))"

text \<open>The loop \<open>for (PLOT_ID id : plots) f(id)\<close> over the state.\<close>

fun for_plots :: "(World \<Rightarrow> PLOT_ID \<Rightarrow> Fault + World) \<Rightarrow> PLOT_ID list \<Rightarrow> World \<Rightarrow> Fault + World" where
  "for_plots f [] w = Inr w"
| "for_plots f (i # ids) w = (case f w i of Inl e \<Rightarrow> Inl e | Inr w' \<Rightarrow> for_plots f ids w')"

section \<open>Frame rate, painting and termination\<close>

text \<open>\<open>Canvas::setFramerate\<close>.\<close>

definition setFramerate :: "Env \<Rightarrow> World \<Rightarrow> Canvas \<Rightarrow> int \<Rightarrow> Fault + World \<times> Canvas" where
  "setFramerate env w c framerate' =
     (case (if framerate' = SP_STATIC env \<and> framerate c \<noteq> SP_STATIC env
            then for_plots isolatePlotData (plots c) w else Inr w) of
        Inl f \<Rightarrow> Inl f
      | Inr w1 \<Rightarrow>
          (case (if framerate' \<noteq> SP_STATIC env \<and> framerate c = SP_STATIC env
                 then for_plots deletePlotData (plots c) w1 else Inr w1) of
             Inl f \<Rightarrow> Inl f
           | Inr w2 \<Rightarrow> Inr (w2, c\<lparr>framerate := framerate'\<rparr>)))"

text \<open>
  Modelled from the spec: \<open>Axis::setEnds\<close> is declared in the sources but not defined
  there. It recomputes the major and minor tick spacing (\<open>setMajorMinor\<close>) only if the
  range actually changed, and returns whether it changed.
\<close>

definition setEnds :: "Env \<Rightarrow> real \<Rightarrow> real \<Rightarrow> Axis \<Rightarrow> bool \<times> Axis" where
  "setEnds env minT' maxT' ax =
     (if minT ax = minT' \<and> maxT ax = maxT' then (False, ax)
      else (True, setMajorMinor env (ax\<lparr>minT := minT', maxT := maxT'\<rparr>)))"

text \<open>\<open>Canvas::getSize\<close>, from the client rectangle of the window.\<close>

definition getSize :: "World \<Rightarrow> Canvas \<Rightarrow> POINT" where
  "getSize w c = (case clientRect w (hwnd c) of (l, t, r, b) \<Rightarrow> (r - l, b - t))"

text \<open>The first loop of \<open>Canvas::draw\<close>: every plot writes its limits into \<open>axisLimits\<close>.\<close>

fun limits_loop :: "World \<Rightarrow> PLOT_ID list \<Rightarrow> real list \<Rightarrow> Fault + real list" where
  "limits_loop w [] lims = Inr lims"
| "limits_loop w (i # ids) lims =
     (case getPlotAxisLimits w i lims of Inl f \<Rightarrow> Inl f | Inr lims' \<Rightarrow> limits_loop w ids lims')"

text \<open>
  \<open>Canvas::draw\<close>, as far as it changes the canvas: the axis limits, the ends of the
  two axes and the four corners of the draw space. The calls that only put pixels on the
  device context (\<open>drawGrid\<close>, \<open>drawPlot\<close>, \<open>drawAxis\<close>) change none of these.
\<close>

definition draw :: "Env \<Rightarrow> World \<Rightarrow> Canvas \<Rightarrow> Fault + Canvas" where
  "draw env w c =
     (if length (axisLimits c) = 4 \<and> length (drawSpace c) = 4 \<and> length (axes c) = 2
      then case limits_loop w (plots c) (axisLimits c) of
             Inl f \<Rightarrow> Inl f
           | Inr lims \<Rightarrow>
               (let axes0 = snd (setEnds env (lims ! 0) (lims ! 1) (axes c ! 0));
                    axes1 = snd (setEnds env (lims ! 2) (lims ! 3) (axes c ! 1));
                    wsize = getSize w c;
                    clearanceHoriz = getClearance env axes0;
                    clearanceVert = getClearance env axes1
                in Inr (c\<lparr>axisLimits := lims,
                          axes := [axes0, axes1],
                          drawSpace := (drawSpace c)
                            [0 := (clearanceVert, snd wsize - clearanceHoriz),
                             1 := (fst wsize - SP_BORDER_WIDTH env, snd wsize - clearanceHoriz),
                             2 := (clearanceVert, SP_BORDER_WIDTH env),
                             3 := (fst wsize - SP_BORDER_WIDTH env, SP_BORDER_WIDTH env)]\<rparr>))
      else Inl ArraysNotAllocated)"







text \<open>
  Two predicates on the state. \<open>private_copies\<close>: every plot of the list is listed once,
  is registered, and points at a live array that no other plot of the list points at.
  \<open>fresh_next\<close>: the address that the next \<open>new[]\<close> returns lies beyond every live array
  and every data pointer of a registered plot.
\<close>

definition private_copies :: "World \<Rightarrow> PLOT_ID list \<Rightarrow> bool" where
  "private_copies w ps =
     (distinct (map (\<lambda>i. map_option data (registry w i)) ps)
      \<and> list_all (\<lambda>i. case registry w i of None \<Rightarrow> False | Some s \<Rightarrow> cells w (data s) \<noteq> None) ps)"

definition fresh_next :: "World \<Rightarrow> bool" where
  "fresh_next w = ((\<forall>a\<in>dom (cells w). a < next_addr w)
                 \<and> (\<forall>i s. registry w i = Some s \<longrightarrow> data s < next_addr w))"

section \<open>Concrete inputs\<close>

text \<open>
  A registry in which every plot is a series on 2D Cartesian axes (plot type order 1),
  but for plot 9, of a plot type with the greater order 2, and plot 5, whose axis type is
  \<open>SPECIAL\<close>. The read past the end of the vector yields order 0.
\<close>

definition axis_ex :: Axis where
  "axis_ex = \<lparr>logarithmic = False, fixEnds = False, maxT = 1, minT = 0, major = 1, minor = 1\<rparr>"

definition env_ex :: Env where
  "env_ex =
     \<lparr>getPlotType = (\<lambda>p. if p = 9 then 2 else 1),
      getPlotAxisType = (\<lambda>p. if p = 5 then SPECIAL else CART_2D),
      pastEndOrder = (\<lambda>ps. 0),
      SP_STATIC = - 1,
      SP_BORDER_WIDTH = 10,
      fresh_axisLimits = [0, 0, 0, 0],
      fresh_drawSpace = [(0, 0), (0, 0), (0, 0), (0, 0)],
      fresh_axes = [axis_ex, axis_ex],
      setMajorMinor = (\<lambda>a. a\<lparr>major := maxT a - minT a, minor := (maxT a - minT a) / 2\<rparr>),
      getClearance = (\<lambda>a. 30),
      dispatchMessage = (\<lambda>w. w)\<rparr>"

text \<open>The canvas object before the constructor body, and the canvases built from it.\<close>

definition blank_ex :: Canvas where
  "blank_ex =
     \<lparr>plots = [], axisType = CART_2D, axisLimits = [], drawSpace = [], axes = [],
      framerate = 30, hwnd = 1, killed = False\<rparr>"

definition canvas_of :: "PLOT_ID list \<Rightarrow> Canvas" where
  "canvas_of ps =
     blank_ex\<lparr>plots := ps, axisLimits := [0, 0, 0, 0],
              drawSpace := [(0, 0), (0, 0), (0, 0), (0, 0)], axes := [axis_ex, axis_ex]\<rparr>"

text \<open>
  Two series in the caller's arrays: plot 1 has the five points 1, 3, 2, 5, 4 at address
  100, plot 2 the two points 0, 10 at address 200; both have \<open>skip = 1\<close>. Window 1 has a
  backbuffer bitmap and a client area of 640 by 480.
\<close>

definition series1_ex :: Series where
  "series1_ex = \<lparr>skip = 1, data = 100, sizeData = 5\<rparr>"

definition series2_ex :: Series where
  "series2_ex = \<lparr>skip = 1, data = 200, sizeData = 2\<rparr>"

definition world_ex :: World where
  "world_ex =
     \<lparr>registry = [1 \<mapsto> series1_ex, 2 \<mapsto> series2_ex],
      cells = [100 \<mapsto> [1, 3, 2, 5, 4], 200 \<mapsto> [0, 10]],
      next_addr = 300,
      terminateCanvas = [1 \<mapsto> False],
      hwndToBitmap = [1 \<mapsto> 7],
      gdiObjects = {7},
      clientRect = (\<lambda>h. (0, 0, 640, 480))\<rparr>"

text \<open>
  The state once the canvas of plot 1 has gone into static mode: plot 1 reads its
  private copy at address 300.
\<close>

definition world_static_ex :: World where
  "world_static_ex =
     world_ex\<lparr>cells := (cells world_ex)(300 \<mapsto> [1, 3, 2, 5, 4]),
              next_addr := 301,
              registry := (registry world_ex)(1 \<mapsto> series1_ex\<lparr>data := 300\<rparr>)\<rparr>"


text \<open>
  The state once that canvas has gone back to 30 frames per second: the private copy is
  deleted.
\<close>

definition world_back_ex :: World where
  "world_back_ex = world_static_ex\<lparr>cells := (cells world_static_ex)(300 := None)\<rparr>"

text \<open>The static canvas of plot 1, and the state in which its termination flag is set.\<close>

definition canvas_static_ex :: Canvas where
  "canvas_static_ex = (canvas_of [1])\<lparr>framerate := - 1\<rparr>"

definition world_flagged_ex :: World where
  "world_flagged_ex = world_static_ex\<lparr>terminateCanvas := [1 \<mapsto> True]\<rparr>"

text \<open>The state after the render loop of that canvas has seen the flag.\<close>

definition world_killed_ex :: World where
  "world_killed_ex =
     world_flagged_ex\<lparr>gdiObjects := {}, cells := (cells world_flagged_ex)(300 := None)\<rparr>"

section \<open>Evaluation of the concrete inputs\<close>

lemmas ex_defs = env_ex_def blank_ex_def canvas_of_def axis_ex_def series1_ex_def series2_ex_def
  world_ex_def world_static_ex_def world_back_ex_def canvas_static_ex_def world_flagged_ex_def
  world_killed_ex_def

lemma Canvas_ctor_ex_1_2: "Canvas_ctor env_ex blank_ex [1, 2] = Some (Inr (canvas_of [2, 1]))"
  by (simp add: Canvas_ctor_def addPlot_def setAxisType_def orderAt_def binary_search.simps ex_defs)

lemma Canvas_ctor_ex_1: "Canvas_ctor env_ex blank_ex [1] = Some (Inr (canvas_of [1]))"
  by (simp add: Canvas_ctor_def addPlot_def setAxisType_def orderAt_def ex_defs)

section \<open>The membership list stays sorted\<close>

lemma find_first_None: "find_first ps p = None \<longleftrightarrow> p \<notin> set ps"
  by (induction ps) (auto split: option.splits)

lemma binary_search_inv_aux:
  assumes "binary_search env ps t b bo e eo = Some y"
  shows "b < length ps \<and> b \<le> e \<and> e \<le> length ps \<and> bo = getPlotType env (ps ! b) \<longrightarrow>
         fst y < length ps \<and> snd y = getPlotType env (ps ! fst y)"
  using assms
proof (rule binary_search.raw_induct [rotated, where
         P = "\<lambda>env ps t b bo e eo y.
                b < length ps \<and> b \<le> e \<and> e \<le> length ps \<and> bo = getPlotType env (ps ! b) \<longrightarrow>
                fst y < length ps \<and> snd y = getPlotType env (ps ! fst y)"])
  fix bs env ps t b bo e eo y
  assume IH: "\<And>env ps t b bo e eo y. bs env ps t b bo e eo = Some y \<Longrightarrow>
                b < length ps \<and> b \<le> e \<and> e \<le> length ps \<and> bo = getPlotType env (ps ! b) \<longrightarrow>
                fst y < length ps \<and> snd y = getPlotType env (ps ! fst y)"
    and eq: "(if bo \<noteq> eo
              then if t < orderAt env ps (b + (e - b) div 2)
                   then bs env ps t (b + (e - b) div 2) (orderAt env ps (b + (e - b) div 2)) e eo
                   else bs env ps t b bo (b + (e - b) div 2) (orderAt env ps (b + (e - b) div 2))
              else Some (b, bo)) = Some y"
  show "b < length ps \<and> b \<le> e \<and> e \<le> length ps \<and> bo = getPlotType env (ps ! b) \<longrightarrow>
        fst y < length ps \<and> snd y = getPlotType env (ps ! fst y)"
  proof
    assume inv: "b < length ps \<and> b \<le> e \<and> e \<le> length ps \<and> bo = getPlotType env (ps ! b)"
    let ?m = "b + (e - b) div 2"
    have m: "?m < length ps" "b \<le> ?m" "?m \<le> e" using inv by auto
    show "fst y < length ps \<and> snd y = getPlotType env (ps ! fst y)"
    proof (cases "bo = eo")
      case True
      with eq have "y = (b, bo)" by simp
      with inv show ?thesis by simp
    next
      case False
      show ?thesis
      proof (cases "t < orderAt env ps ?m")
        case True
        with False eq have "bs env ps t ?m (orderAt env ps ?m) e eo = Some y" by simp
        from IH[OF this] m inv show ?thesis by (simp add: orderAt_def)
      next
        case F2: False
        with False eq have "bs env ps t b bo ?m (orderAt env ps ?m) = Some y" by simp
        from IH[OF this] m inv show ?thesis by simp
      qed
    qed
  qed
qed

lemma binary_search_inv:
  "binary_search env ps t b bo e eo = Some y \<Longrightarrow>
   b < length ps \<Longrightarrow> b \<le> e \<Longrightarrow> e \<le> length ps \<Longrightarrow> bo = getPlotType env (ps ! b) \<Longrightarrow>
   fst y < length ps \<and> snd y = getPlotType env (ps ! fst y)"
  using binary_search_inv_aux by blast

lemma sorted_insert_at:
  assumes "sorted_wrt (\<lambda>a b. a \<ge> b) (map f ps)" and "i < length ps" and "f (ps ! i) = (f p :: int)"
  shows "sorted_wrt (\<lambda>a b. a \<ge> b) (map f (take i ps @ [p] @ drop i ps))"
proof -
  have ps: "ps = take i ps @ drop i ps" by simp
  have s: "sorted_wrt (\<lambda>a b. a \<ge> b) (map f (take i ps) @ map f (drop i ps))"
    using assms(1) by (metis ps map_append)
  have d: "drop i ps = ps ! i # drop (Suc i) ps" using assms(2) by (simp add: Cons_nth_drop_Suc)
  from s d assms(3) show ?thesis
    by (auto simp: sorted_wrt_append)
qed

lemma sorted_erase_at:
  assumes "sorted_wrt (\<lambda>a b. a \<ge> b) (map f ps)"
  shows "sorted_wrt (\<lambda>a b. a \<ge> b) (map (f :: nat \<Rightarrow> int) (take i ps @ drop (Suc i) ps))"
proof -
  have ps: "ps = take i ps @ drop i ps" by simp
  have s: "sorted_wrt (\<lambda>a b. a \<ge> b) (map f (take i ps) @ map f (drop i ps))"
    using assms(1) by (metis ps map_append)
  have "set (drop (Suc i) ps) \<subseteq> set (drop i ps)" by (simp add: set_drop_subset_set_drop)
  moreover have "sorted_wrt (\<lambda>a b. a \<ge> b) (map f (drop (Suc i) ps))"
    using assms by (metis drop_map sorted_wrt_drop)
  ultimately show ?thesis using s
    by (auto simp: sorted_wrt_append)
qed

lemma addPlot_sorted:
  assumes "plots_sorted env c" and "addPlot env c p = Some r"
  shows "plots_sorted env (case r of Inl (e, c') \<Rightarrow> c' | Inr c' \<Rightarrow> c')"
proof (cases "length (plots c) = 0")
  case True
  with assms(2) show ?thesis
    by (auto simp: addPlot_def plots_sorted_def setAxisType_def Let_def split: sum.splits AXIS_TYPE.splits)
next
  case False
  show ?thesis
  proof (cases "binary_search env (plots c) (getPlotType env p) 0 (orderAt env (plots c) 0)
                  (length (plots c)) (orderAt env (plots c) (length (plots c)))")
    case None
    with False assms(2) show ?thesis by (simp add: addPlot_def)
  next
    case (Some y)
    from binary_search_inv[OF Some] False
    have y: "fst y < length (plots c)" "snd y = getPlotType env (plots c ! fst y)"
      by (auto simp: orderAt_def)
    show ?thesis
    proof (cases "snd y = getPlotType env p")
      case True
      with Some False assms(2) have "r = Inr (c\<lparr>plots := take (fst y) (plots c) @ [p] @ drop (fst y) (plots c)\<rparr>)"
        by (auto simp: addPlot_def split: prod.splits)
      moreover have "sorted_wrt (\<lambda>a b. a \<ge> b) (map (getPlotType env) (take (fst y) (plots c) @ [p] @ drop (fst y) (plots c)))"
        using assms(1) y True unfolding plots_sorted_def
        by (intro sorted_insert_at) auto
      ultimately show ?thesis by (simp add: plots_sorted_def)
    next
      case F: False
      with Some False assms(2) have "r = Inl (BinaryInsertFailed, c)"
        by (auto simp: addPlot_def split: prod.splits)
      with assms(1) show ?thesis by simp
    qed
  qed
qed

lemma removePlot_sorted: "plots_sorted env c \<Longrightarrow> plots_sorted env (removePlot c p)"
  using sorted_erase_at[of "getPlotType env" "plots c"]
  by (auto simp: removePlot_def plots_sorted_def split: option.splits)

lemma apply_op_sorted: "plots_sorted env c \<Longrightarrow> apply_op env c x = Some c' \<Longrightarrow> plots_sorted env c'"
proof (cases x)
  case (AddPlot p)
  assume s: "plots_sorted env c" and a: "apply_op env c x = Some c'"
  from a AddPlot obtain r where r: "addPlot env c p = Some r" and c': "c' = (case r of Inl (e, c') \<Rightarrow> c' | Inr c' \<Rightarrow> c')"
    by (auto split: option.splits sum.splits prod.splits)
  from addPlot_sorted[OF s r] c' show ?thesis by simp
next
  case (RemovePlot p)
  assume "plots_sorted env c" and "apply_op env c x = Some c'"
  with RemovePlot show ?thesis by (auto simp: removePlot_sorted)
qed

lemma run_ops_sorted: "plots_sorted env c \<Longrightarrow> run_ops env c xs = Some c' \<Longrightarrow> plots_sorted env c'"
proof (induction xs arbitrary: c)
  case Nil
  then show ?case by simp
next
  case (Cons x xs)
  then show ?case by (auto split: option.splits dest: apply_op_sorted)
qed

lemma setAxisType_plots: "setAxisType env c = Inr c' \<Longrightarrow> plots c' = plots c"
  by (auto simp: setAxisType_def split: AXIS_TYPE.splits)

lemma ctor_loop_sorted:
  "plots_sorted env c \<Longrightarrow> ctor_loop env c ids = Some (Inr c') \<Longrightarrow> plots_sorted env c'"
proof (induction ids arbitrary: c)
  case Nil
  then show ?case by simp
next
  case (Cons i ids)
  from Cons.prems(2) obtain c1 where a: "addPlot env c i = Some (Inr c1)"
    and l: "ctor_loop env c1 ids = Some (Inr c')"
    by (auto split: if_splits option.splits sum.splits prod.splits)
  from addPlot_sorted[OF Cons.prems(1) a] have "plots_sorted env c1" by simp
  from Cons.IH[OF this l] show ?case .
qed

lemma Canvas_ctor_sorted:
  assumes "Canvas_ctor env c0 ids = Some (Inr c)"
  shows "plots_sorted env c"
proof (cases "length ids = 0")
  case True
  with assms show ?thesis by (auto simp: Canvas_ctor_def plots_sorted_def)
next
  case False
  let ?c1 = "c0\<lparr>plots := [], axisType := getPlotAxisType env (ids ! 0)\<rparr>"
  from assms False obtain c2 where l: "ctor_loop env ?c1 ids = Some (Inr c2)"
    and s: "setAxisType env c2 = Inr c"
    by (auto simp: Canvas_ctor_def Let_def split: if_splits option.splits sum.splits)
  have "plots_sorted env ?c1" by (simp add: plots_sorted_def)
  from ctor_loop_sorted[OF this l] setAxisType_plots[OF s] show ?thesis
    by (simp add: plots_sorted_def)
qed

lemma binary_search_diverges:
  assumes "\<forall>i<length ps. getPlotType env (ps ! i) = tt" and "t < tt" and "eo \<noteq> tt" and "b < length ps"
  shows "binary_search env ps t b tt (length ps) eo = None"
proof (rule ccontr)
  assume "binary_search env ps t b tt (length ps) eo \<noteq> None"
  then obtain y where y: "binary_search env ps t b tt (length ps) eo = Some y" by auto
  have "\<not> ((\<forall>i<length ps. getPlotType env (ps ! i) = tt) \<and> t < tt \<and> eo \<noteq> tt \<and> b < length ps
            \<and> length ps = length ps)"
    using y
  proof (rule binary_search.raw_induct [rotated, where
         P = "\<lambda>env ps t b bo e eo y.
                \<not> ((\<forall>i<length ps. getPlotType env (ps ! i) = bo) \<and> t < bo \<and> eo \<noteq> bo \<and> b < length ps
                   \<and> e = length ps)"])
    fix bs env ps t b bo e eo y
    assume IH: "\<And>env ps t b bo e eo y. bs env ps t b bo e eo = Some y \<Longrightarrow>
                \<not> ((\<forall>i<length ps. getPlotType env (ps ! i) = bo) \<and> t < bo \<and> eo \<noteq> bo \<and> b < length ps
                   \<and> e = length ps)"
    and eq: "(if bo \<noteq> eo
              then if t < orderAt env ps (b + (e - b) div 2)
                   then bs env ps t (b + (e - b) div 2) (orderAt env ps (b + (e - b) div 2)) e eo
                   else bs env ps t b bo (b + (e - b) div 2) (orderAt env ps (b + (e - b) div 2))
              else Some (b, bo)) = Some y"
    show "\<not> ((\<forall>i<length ps. getPlotType env (ps ! i) = bo) \<and> t < bo \<and> eo \<noteq> bo \<and> b < length ps
                   \<and> e = length ps)"
    proof
      assume D: "(\<forall>i<length ps. getPlotType env (ps ! i) = bo) \<and> t < bo \<and> eo \<noteq> bo \<and> b < length ps
                   \<and> e = length ps"
      let ?m = "b + (e - b) div 2"
      have m: "?m < length ps" using D by auto
      with D have om: "orderAt env ps ?m = bo" by (simp add: orderAt_def)
      with D eq have "bs env ps t ?m bo e eo = Some y" by auto
      from IH[OF this] D m show False by simp
    qed
  qed
  with assms show False by simp
qed

text \<open>
  Claim C1. For every canvas, as the constructor builds it, and every sequence of
  \<open>addPlot\<close> and \<open>removePlot\<close> calls on it, the member plots are sorted by plot-type order
  from greatest to least after the sequence, and so after each of its calls, every
  prefix being such a sequence. A call that throws counts with the canvas it leaves.
\<close>

theorem membership_keeps_plots_sorted:
  "Canvas_ctor env c0 ids = Some (Inr c) \<Longrightarrow> run_ops env c ops = Some c' \<Longrightarrow> plots_sorted env c'"
  by (rule run_ops_sorted [OF Canvas_ctor_sorted])

theorem membership_keeps_plots_sorted_witness:
  "Canvas_ctor env_ex blank_ex [1, 2] = Some (Inr (canvas_of [2, 1]))
   \<and> run_ops env_ex (canvas_of [2, 1]) [AddPlot 3, AddPlot 9, RemovePlot 1] = Some (canvas_of [3, 2])
   \<and> plots_sorted env_ex (canvas_of [3, 2])"
proof -
  have c: "Canvas_ctor env_ex blank_ex [1, 2] = Some (Inr (canvas_of [2, 1]))"
    by (rule Canvas_ctor_ex_1_2)
  have r: "run_ops env_ex (canvas_of [2, 1]) [AddPlot 3, AddPlot 9, RemovePlot 1] = Some (canvas_of [3, 2])"
    by (simp add: addPlot_def removePlot_def setAxisType_def orderAt_def binary_search.simps ex_defs)
  from membership_keeps_plots_sorted [OF c r] c r show ?thesis by simp
qed

section \<open>The binary insertion\<close>

text \<open>
  Claim C7. \<open>addPlot\<close> on a non-empty canvas either throws or inserts. The code does
  neither here: the canvas holds plot 9 of order 2, the plot to add has order 1, and the
  search keeps \<open>begin = middle\<close> for ever, so the call does not return.
\<close>

theorem addPlot_lower_type_never_returns:
  "Canvas_ctor env_ex blank_ex [9] = Some (Inr (canvas_of [9]))
   \<and> getPlotType env_ex 9 = 2 \<and> getPlotType env_ex 1 = 1
   \<and> addPlot env_ex (canvas_of [9]) 1 = None"
proof -
  have "binary_search env_ex [9] 1 0 2 (length [9::nat]) 0 = None"
    by (rule binary_search_diverges) (simp_all add: env_ex_def)
  then show ?thesis
    by (simp add: Canvas_ctor_def addPlot_def setAxisType_def orderAt_def ex_defs)
qed

section \<open>Removing a plot\<close>

text \<open>
  Claim C10. \<open>removePlot\<close> with a plot id that is not a member returns without an
  error (it has none to raise) and leaves the canvas, so the membership list, unchanged.
\<close>

theorem removePlot_absent: "plotID \<notin> set (plots c) \<Longrightarrow> removePlot c plotID = c"
  by (simp add: removePlot_def find_first_None [THEN iffD2])

theorem removePlot_absent_witness:
  "7 \<notin> set (plots (canvas_of [2, 1])) \<and> removePlot (canvas_of [2, 1]) 7 = canvas_of [2, 1]"
  using removePlot_absent [of 7 "canvas_of [2, 1]"] by (simp add: canvas_of_def)

section \<open>Static mode and the data arrays\<close>

text \<open>
  Claim C3. After \<open>setFramerate\<close> to static and back, every member plot should read
  the caller's array again. Here plot 1 starts on the caller's array at 100; going
  static redirects it to the copy at 300; going back deletes the copy and leaves plot 1
  pointing at it, so the next paint reads a deleted array.
\<close>

theorem setFramerate_toggle_leaves_dangling_pointer:
  "setFramerate env_ex world_ex (canvas_of [1]) (SP_STATIC env_ex) = Inr (world_static_ex, canvas_static_ex)
   \<and> setFramerate env_ex world_static_ex canvas_static_ex 30 = Inr (world_back_ex, canvas_of [1])
   \<and> map_option data (registry world_ex 1) = Some 100
   \<and> map_option data (registry world_back_ex 1) = Some 300
   \<and> cells world_back_ex 300 = None
   \<and> draw env_ex world_back_ex (canvas_of [1]) = Inl UseAfterFree"
  by (simp add: setFramerate_def isolatePlotData_def Series_isolateData_def deletePlotData_def
       Series_deleteData_def read_array_def draw_def getPlotAxisLimits_def Series_getAxisLimits_def ex_defs)

section \<open>Axis limits of a paint pass\<close>

text \<open>
  Claim C4. A paint pass should reduce the data ranges of all member plots to one shared
  minimum and maximum per axis. Here the canvas holds plots 2 and 1, in this order; the
  limits after \<open>draw\<close> are those of plot 1, the last one asked, and the range 0 to 10 of
  plot 2 on the second axis lies outside them.
\<close>

theorem draw_takes_limits_of_last_plot:
  "Canvas_ctor env_ex blank_ex [1, 2] = Some (Inr (canvas_of [2, 1]))
   \<and> map_sum id axisLimits (draw env_ex world_ex (canvas_of [2, 1])) = Inr [0, 4, 1, 5]
   \<and> getPlotAxisLimits world_ex 2 [0, 0, 0, 0] = Inr [0, 1, 0, 10]"
  by (simp add: Canvas_ctor_def addPlot_def setAxisType_def orderAt_def binary_search.simps
       draw_def getPlotAxisLimits_def Series_getAxisLimits_def read_array_def minValue_def maxValue_def
       setEnds_def getSize_def ex_defs)

section \<open>The ends of an axis\<close>

text \<open>
  Claim C8. After \<open>setEnds(a, b)\<close>, a second \<open>setEnds(a, b)\<close> returns false and leaves the
  axis as it is, with no recomputation of the tick spacing, while \<open>setEnds(a, c)\<close> with
  \<open>c \<noteq> b\<close> returns true and recomputes it. The tick computation is taken to leave the
  ends of the axis alone.
\<close>

theorem setEnds_idempotent:
  assumes "\<forall>x. minT (setMajorMinor env x) = minT x \<and> maxT (setMajorMinor env x) = maxT x"
  shows "setEnds env a b (snd (setEnds env a b ax)) = (False, snd (setEnds env a b ax))
         \<and> (c \<noteq> b \<longrightarrow>
              setEnds env a c (snd (setEnds env a b ax))
                = (True, setMajorMinor env ((snd (setEnds env a b ax))\<lparr>minT := a, maxT := c\<rparr>)))"
  using assms by (simp add: setEnds_def)

theorem setEnds_idempotent_witness:
  "(\<forall>x. minT (setMajorMinor env_ex x) = minT x \<and> maxT (setMajorMinor env_ex x) = maxT x)
   \<and> setEnds env_ex 0 4 (snd (setEnds env_ex 0 4 axis_ex)) = (False, snd (setEnds env_ex 0 4 axis_ex))
   \<and> (5 \<noteq> (4::real))
   \<and> fst (setEnds env_ex 0 5 (snd (setEnds env_ex 0 4 axis_ex)))"
proof -
  have h: "\<forall>x. minT (setMajorMinor env_ex x) = minT x \<and> maxT (setMajorMinor env_ex x) = maxT x"
    by (simp add: env_ex_def)
  from setEnds_idempotent [OF h, of 0 4 axis_ex 5] h show ?thesis by simp
qed

section \<open>Axis types at construction\<close>

lemma addPlot_axisType:
  "addPlot env c i = Some (Inr c') \<Longrightarrow> getPlotAxisType env i = axisType c \<Longrightarrow> axisType c' = axisType c"
  by (auto simp: addPlot_def setAxisType_def Let_def split: if_splits option.splits sum.splits prod.splits AXIS_TYPE.splits)

lemma ctor_loop_mismatch:
  "\<exists>i\<in>set ids. getPlotAxisType env i \<noteq> axisType c \<Longrightarrow> ctor_loop env c ids \<noteq> Some (Inr c')"
proof (induction ids arbitrary: c)
  case Nil
  then show ?case by simp
next
  case (Cons i ids)
  show ?case
  proof (cases "axisType c = getPlotAxisType env i")
    case False
    then show ?thesis by simp
  next
    case True
    show ?thesis
    proof (cases "addPlot env c i")
      case None
      with True show ?thesis by simp
    next
      case (Some r)
      show ?thesis
      proof (cases r)
        case (Inl a)
        with Some True show ?thesis by (simp split: prod.splits)
      next
        case (Inr c1)
        with Some True addPlot_axisType[of env c i c1] have ax: "axisType c1 = axisType c" by simp
        with Cons.prems True have "\<exists>j\<in>set ids. getPlotAxisType env j \<noteq> axisType c1" by auto
        from Cons.IH[OF this] Inr Some True show ?thesis by simp
      qed
    qed
  qed
qed

lemma Canvas_ctor_mismatch:
  assumes "\<exists>i\<in>set ids. getPlotAxisType env i \<noteq> getPlotAxisType env (ids ! 0)"
  shows "Canvas_ctor env c0 ids \<noteq> Some (Inr c)"
proof -
  from assms have ne: "length ids \<noteq> 0" by auto
  let ?c1 = "c0\<lparr>plots := [], axisType := getPlotAxisType env (ids ! 0)\<rparr>"
  from assms have "\<exists>i\<in>set ids. getPlotAxisType env i \<noteq> axisType ?c1" by simp
  from ctor_loop_mismatch[OF this] have "\<And>c'. ctor_loop env ?c1 ids \<noteq> Some (Inr c')" .
  with ne show ?thesis
    by (auto simp: Canvas_ctor_def Let_def split: option.splits sum.splits)
qed

lemma binary_search_not_lower:
  assumes "\<forall>i<length ps. getPlotType env (ps ! i) = t" and "ps \<noteq> []" and "t \<le> u"
  shows "binary_search env ps u 0 t (length ps) eo = Some (0, t)"
proof (cases "eo = t")
  case True
  then show ?thesis by (simp add: binary_search.simps)
next
  case False
  have m: "length ps div 2 < length ps" using assms(2) by simp
  with assms(1) have o: "orderAt env ps (length ps div 2) = t" by (simp add: orderAt_def)
  have "binary_search env ps u 0 t (length ps) eo = binary_search env ps u 0 t (length ps div 2) t"
    using False o assms(3) by (subst binary_search.simps) simp
  also have "\<dots> = Some (0, t)" by (simp add: binary_search.simps)
  finally show ?thesis .
qed

lemma addPlot_one_order:
  assumes ne: "plots c \<noteq> []" and h: "\<forall>p\<in>set (plots c). getPlotType env p = t"
  shows "addPlot env c i =
           (if getPlotType env i = t then Some (Inr (c\<lparr>plots := i # plots c\<rparr>))
            else if getPlotType env i < t \<and> pastEndOrder env (plots c) \<noteq> t then None
            else Some (Inl (BinaryInsertFailed, c)))"
proof -
  from h have a: "\<forall>k<length (plots c). getPlotType env (plots c ! k) = t" by simp
  from ne a have o: "orderAt env (plots c) 0 = t" by (simp add: orderAt_def)
  have e: "orderAt env (plots c) (length (plots c)) = pastEndOrder env (plots c)"
    by (simp add: orderAt_def)
  consider (ge) "t \<le> getPlotType env i"
    | (eq) "getPlotType env i < t" "pastEndOrder env (plots c) = t"
    | (lt) "getPlotType env i < t" "pastEndOrder env (plots c) \<noteq> t"
    by linarith
  then show ?thesis
  proof cases
    case ge
    from binary_search_not_lower[OF a ne ge] o ne ge show ?thesis
      by (auto simp: addPlot_def)
  next
    case eq
    have "binary_search env (plots c) (getPlotType env i) 0 t (length (plots c)) t = Some (0, t)"
      by (simp add: binary_search.simps)
    with eq o e ne show ?thesis by (simp add: addPlot_def)
  next
    case lt
    from ne have "0 < length (plots c)" by simp
    from binary_search_diverges[OF a lt(1) lt(2) this] lt o e ne show ?thesis
      by (simp add: addPlot_def)
  qed
qed

lemma ctor_loop_None_iff:
  "plots c \<noteq> [] \<Longrightarrow> \<forall>p\<in>set (plots c). getPlotType env p = t \<Longrightarrow>
   (ctor_loop env c ids = None) = reaches_hang env (axisType c) t (plots c) ids"
proof (induction ids arbitrary: c)
  case Nil
  then show ?case by simp
next
  case (Cons i ids)
  note a = addPlot_one_order[OF Cons.prems, of i]
  show ?case
  proof (cases "axisType c = getPlotAxisType env i")
    case False
    then show ?thesis by auto
  next
    case True
    show ?thesis
    proof (cases "getPlotType env i = t")
      case eq: True
      let ?c' = "c\<lparr>plots := i # plots c\<rparr>"
      have "plots ?c' \<noteq> []" and "\<forall>p\<in>set (plots ?c'). getPlotType env p = t"
        using Cons.prems eq by simp_all
      from Cons.IH[OF this] a eq True show ?thesis by simp
    next
      case False
      with a True show ?thesis by auto
    qed
  qed
qed

lemma Canvas_ctor_None_iff: "(Canvas_ctor env c0 ids = None) = ctor_hangs env ids"
proof (cases ids)
  case Nil
  then show ?thesis by (simp add: Canvas_ctor_def ctor_hangs_def)
next
  case (Cons i rest)
  let ?c2 = "c0\<lparr>plots := [i], axisType := getPlotAxisType env i\<rparr>"
  show ?thesis
  proof (cases "getPlotAxisType env i = CART_2D")
    case False
    then have "addPlot env (c0\<lparr>plots := [], axisType := getPlotAxisType env i\<rparr>) i
                 = Some (Inl (AxisTypeUnimplemented, ?c2))"
      by (cases "getPlotAxisType env i") (simp_all add: addPlot_def setAxisType_def)
    with False Cons show ?thesis
      by (simp add: Canvas_ctor_def ctor_hangs_def)
  next
    case True
    let ?c3 = "?c2\<lparr>axisLimits := fresh_axisLimits env, drawSpace := fresh_drawSpace env,
                    axes := fresh_axes env\<rparr>"
    from True have ap: "addPlot env (c0\<lparr>plots := [], axisType := getPlotAxisType env i\<rparr>) i
                 = Some (Inr ?c3)"
      by (simp add: addPlot_def setAxisType_def)
    have "plots ?c3 \<noteq> []" and "\<forall>p\<in>set (plots ?c3). getPlotType env p = getPlotType env i"
      by simp_all
    from ctor_loop_None_iff[OF this, of rest] True
    have l: "(ctor_loop env ?c3 rest = None) = reaches_hang env CART_2D (getPlotType env i) [i] rest"
      by simp
    from True Cons ap l show ?thesis
      by (auto simp: Canvas_ctor_def ctor_hangs_def split: option.splits sum.splits)
  qed
qed

lemma reaches_hang_first_mismatch:
  "\<forall>q\<in>set pre. getPlotType env q = t \<Longrightarrow> getPlotAxisType env p \<noteq> a \<Longrightarrow>
   \<not> reaches_hang env a t ps (pre @ p # post)"
  by (induction pre arbitrary: ps) auto

lemma ctor_hangs_not_before_first_mismatch:
  "\<forall>q\<in>set pre. getPlotType env q = getPlotType env i \<Longrightarrow>
   getPlotAxisType env p \<noteq> getPlotAxisType env i \<Longrightarrow>
   \<not> ctor_hangs env (i # pre @ p # post)"
  using reaches_hang_first_mismatch [of pre env "getPlotType env i" p CART_2D "[i]" post]
  by (auto simp: ctor_hangs_def)

text \<open>
  Claim C2, as stated, fails in each of its parts. A canvas of the single plot 5, whose
  axis type is \<open>SPECIAL\<close>, is not created: the constructor throws. Adding plot 5 to the
  canvas of plot 1, whose axis type is \<open>CART_2D\<close>, succeeds. And constructing from the
  plots 9, 1, 5, of axis types \<open>CART_2D\<close>, \<open>CART_2D\<close>, \<open>SPECIAL\<close>, does not end, in an error
  or otherwise.
\<close>

theorem Canvas_ctor_single_special_counterexample:
  "getPlotAxisType env_ex 5 = SPECIAL
   \<and> Canvas_ctor env_ex blank_ex [5] = Some (Inl AxisTypeUnimplemented)
   \<and> getPlotAxisType env_ex 1 = CART_2D
   \<and> addPlot env_ex (canvas_of [1]) 5 = Some (Inr (canvas_of [5, 1]))
   \<and> Canvas_ctor env_ex blank_ex [9, 1, 5] = None"
proof -
  have "binary_search env_ex [9] 1 0 2 (length [9::nat]) 0 = None"
    by (rule binary_search_diverges) (simp_all add: env_ex_def)
  then have "Canvas_ctor env_ex blank_ex [9, 1, 5] = None"
    by (simp add: Canvas_ctor_def addPlot_def setAxisType_def orderAt_def ex_defs)
  moreover have "addPlot env_ex (canvas_of [1]) 5 = Some (Inr (canvas_of [5, 1]))"
    by (simp add: addPlot_def orderAt_def binary_search.simps ex_defs)
  moreover have "Canvas_ctor env_ex blank_ex [5] = Some (Inl AxisTypeUnimplemented)"
    by (simp add: Canvas_ctor_def addPlot_def setAxisType_def ex_defs)
  ultimately show ?thesis by (simp add: env_ex_def)
qed

text \<open>
  Claim C2, amended. Creating a canvas from a plot list with mismatched axis types never
  yields a canvas, and fails with a \<open>LogicError\<close> on every such list but those on which
  the constructor does not return (\<open>ctor_hangs\<close>: the first plot has axis type \<open>CART_2D\<close>
  and, after plots of the first plot's plot type and axis type only, comes a plot of that
  axis type and of a lower plot-type order, while the read past the end of the member
  vector does not yield the first plot's order). Creating a canvas with a single plot
  succeeds when the plot's axis type is \<open>CART_2D\<close> and fails with the \<open>LogicError\<close> of an
  unimplemented axis type otherwise, so for a single "special"-axis plot.
\<close>

theorem Canvas_ctor_axis_types:
  "((\<exists>i\<in>set ids. getPlotAxisType env i \<noteq> getPlotAxisType env (ids ! 0)) \<longrightarrow>
      (\<forall>c. Canvas_ctor env c0 ids \<noteq> Some (Inr c))
      \<and> (\<not> ctor_hangs env ids \<longrightarrow> (\<exists>e. Canvas_ctor env c0 ids = Some (Inl e))))
   \<and> (getPlotAxisType env j = CART_2D \<longrightarrow>
        (\<exists>c. Canvas_ctor env c0 [j] = Some (Inr c) \<and> plots c = [j]))
   \<and> (getPlotAxisType env j \<noteq> CART_2D \<longrightarrow>
        Canvas_ctor env c0 [j] = Some (Inl AxisTypeUnimplemented))"
proof (intro conjI impI allI)
  fix c
  assume "\<exists>i\<in>set ids. getPlotAxisType env i \<noteq> getPlotAxisType env (ids ! 0)"
  then show "Canvas_ctor env c0 ids \<noteq> Some (Inr c)" by (rule Canvas_ctor_mismatch)
next
  assume m: "\<exists>i\<in>set ids. getPlotAxisType env i \<noteq> getPlotAxisType env (ids ! 0)"
    and h: "\<not> ctor_hangs env ids"
  from h Canvas_ctor_None_iff[of env c0 ids] obtain r where r: "Canvas_ctor env c0 ids = Some r"
    by auto
  with Canvas_ctor_mismatch[OF m, of c0] show "\<exists>e. Canvas_ctor env c0 ids = Some (Inl e)"
    by (cases r) auto
next
  assume "getPlotAxisType env j = CART_2D"
  then show "\<exists>c. Canvas_ctor env c0 [j] = Some (Inr c) \<and> plots c = [j]"
    by (simp add: Canvas_ctor_def addPlot_def setAxisType_def)
next
  assume "getPlotAxisType env j \<noteq> CART_2D"
  then show "Canvas_ctor env c0 [j] = Some (Inl AxisTypeUnimplemented)"
    by (cases "getPlotAxisType env j") (simp_all add: Canvas_ctor_def addPlot_def setAxisType_def Let_def)
qed

theorem Canvas_ctor_axis_types_witness:
  "getPlotAxisType env_ex 1 = CART_2D \<and> getPlotAxisType env_ex 9 = CART_2D
   \<and> getPlotAxisType env_ex 5 = SPECIAL
   \<and> getPlotType env_ex 1 = 1 \<and> getPlotType env_ex 9 = 2
   \<and> \<not> ctor_hangs env_ex [1, 5]
   \<and> Canvas_ctor env_ex blank_ex [1, 5] = Some (Inl AxisTypeMismatch)
   \<and> \<not> ctor_hangs env_ex [9, 5]
   \<and> Canvas_ctor env_ex blank_ex [9, 5] = Some (Inl AxisTypeMismatch)
   \<and> \<not> ctor_hangs env_ex [1, 9, 5]
   \<and> Canvas_ctor env_ex blank_ex [1, 9, 5] = Some (Inl BinaryInsertFailed)
   \<and> Canvas_ctor env_ex blank_ex [1] = Some (Inr (canvas_of [1]))
   \<and> Canvas_ctor env_ex blank_ex [5] = Some (Inl AxisTypeUnimplemented)"
proof -
  have m: "\<exists>i\<in>set [1, 5]. getPlotAxisType env_ex i \<noteq> getPlotAxisType env_ex ([1, 5] ! 0)"
    by (simp add: env_ex_def)
  have h: "\<not> ctor_hangs env_ex [1, 5]" "\<not> ctor_hangs env_ex [9, 5]" "\<not> ctor_hangs env_ex [1, 9, 5]"
    by (simp_all add: ctor_hangs_def env_ex_def)
  have a: "getPlotAxisType env_ex 1 = CART_2D" and b: "getPlotAxisType env_ex 5 \<noteq> CART_2D"
    and t: "getPlotAxisType env_ex 5 = SPECIAL" "getPlotAxisType env_ex 9 = CART_2D"
      "getPlotType env_ex 1 = 1" "getPlotType env_ex 9 = 2"
    by (simp_all add: env_ex_def)
  have e: "Canvas_ctor env_ex blank_ex [1, 5] = Some (Inl AxisTypeMismatch)"
    "Canvas_ctor env_ex blank_ex [9, 5] = Some (Inl AxisTypeMismatch)"
    by (simp_all add: Canvas_ctor_def addPlot_def setAxisType_def env_ex_def blank_ex_def)
  have f: "Canvas_ctor env_ex blank_ex [1, 9, 5] = Some (Inl BinaryInsertFailed)"
    by (simp add: Canvas_ctor_def addPlot_def setAxisType_def orderAt_def binary_search.simps
          env_ex_def blank_ex_def)
  from Canvas_ctor_axis_types [of "[1, 5]" env_ex blank_ex 1] m h a
  have "\<exists>e. Canvas_ctor env_ex blank_ex [1, 5] = Some (Inl e)"
    and "\<exists>c. Canvas_ctor env_ex blank_ex [1] = Some (Inr c) \<and> plots c = [1]"
    by blast+
  moreover have o: "Canvas_ctor env_ex blank_ex [1] = Some (Inr (canvas_of [1]))"
    by (rule Canvas_ctor_ex_1)
  moreover from Canvas_ctor_axis_types [of "[1, 5]" env_ex blank_ex 5] b
  have "Canvas_ctor env_ex blank_ex [5] = Some (Inl AxisTypeUnimplemented)" by blast
  ultimately show ?thesis using a t e f h by simp
qed

section \<open>The limits and the draw space of one paint pass\<close>

lemma list4: "length xs = 4 \<Longrightarrow> \<exists>a b c d. xs = [a, b, c, d]"
  by (auto simp: eval_nat_numeral length_Suc_conv)

lemma draw_one_series_limits:
  assumes "plots c = [i]" and "registry w i = Some s" and "skip s = 1" and "sizeData s = 5"
    and "cells w (data s) = Some [1, 3, 2, 5, 4]"
    and "length (axisLimits c) = 4" and "length (drawSpace c) = 4" and "length (axes c) = 2"
  shows "\<exists>c'. draw env w c = Inr c' \<and> axisLimits c' = [0, 4, 1, 5]"
proof -
  from list4[OF assms(6)] obtain a b c' d where l: "axisLimits c = [a, b, c', d]" by blast
  have "limits_loop w (plots c) (axisLimits c) = Inr [0, 4, 1, 5]"
    using assms(1-5) l
    by (simp add: getPlotAxisLimits_def Series_getAxisLimits_def read_array_def minValue_def maxValue_def)
  with assms(6-8) show ?thesis by (simp add: draw_def Let_def)
qed

lemma draw_corners:
  assumes "draw env w c = Inr c'"
  shows "drawSpace c' =
           [(getClearance env (axes c' ! 1), snd (getSize w c) - getClearance env (axes c' ! 0)),
            (fst (getSize w c) - SP_BORDER_WIDTH env, snd (getSize w c) - getClearance env (axes c' ! 0)),
            (getClearance env (axes c' ! 1), SP_BORDER_WIDTH env),
            (fst (getSize w c) - SP_BORDER_WIDTH env, SP_BORDER_WIDTH env)]"
proof -
  from assms have len: "length (drawSpace c) = 4" by (simp add: draw_def split: if_splits)
  from list4[OF len] obtain p0 p1 p2 p3 where d: "drawSpace c = [p0, p1, p2, p3]" by blast
  from assms d show ?thesis
    by (auto simp: draw_def Let_def split: if_splits sum.splits)
qed

text \<open>
  Claim C5. For a canvas holding one series plot with the five points 1, 3, 2, 5, 4 and
  \<open>skip = 1\<close>, a paint pass computes the axis limits 0, 4, 1, 5. And whatever the data,
  the four corners of the draw space after a paint pass are given by the window size, the
  clearances of the two axes and the border width alone.
\<close>

theorem draw_limits_and_corners:
  "(plots c = [i] \<and> registry w i = Some s \<and> skip s = 1 \<and> sizeData s = 5
      \<and> cells w (data s) = Some [1, 3, 2, 5, 4]
      \<and> length (axisLimits c) = 4 \<and> length (drawSpace c) = 4 \<and> length (axes c) = 2
    \<longrightarrow> (\<exists>c'. draw env w c = Inr c' \<and> axisLimits c' = [0, 4, 1, 5]))
   \<and> (draw env w c = Inr c' \<longrightarrow>
        drawSpace c' =
          [(getClearance env (axes c' ! 1), snd (getSize w c) - getClearance env (axes c' ! 0)),
           (fst (getSize w c) - SP_BORDER_WIDTH env, snd (getSize w c) - getClearance env (axes c' ! 0)),
           (getClearance env (axes c' ! 1), SP_BORDER_WIDTH env),
           (fst (getSize w c) - SP_BORDER_WIDTH env, SP_BORDER_WIDTH env)])"
  using draw_one_series_limits [of c i w s env] draw_corners [of env w c c'] by blast

theorem draw_limits_and_corners_witness:
  "plots (canvas_of [1]) = [1] \<and> registry world_ex 1 = Some series1_ex \<and> skip series1_ex = 1
   \<and> sizeData series1_ex = 5 \<and> cells world_ex (data series1_ex) = Some [1, 3, 2, 5, 4]
   \<and> length (axisLimits (canvas_of [1])) = 4 \<and> length (drawSpace (canvas_of [1])) = 4
   \<and> length (axes (canvas_of [1])) = 2
   \<and> map_sum id axisLimits (draw env_ex world_ex (canvas_of [1])) = Inr [0, 4, 1, 5]
   \<and> map_sum id drawSpace (draw env_ex world_ex (canvas_of [1]))
       = Inr [(30, 450), (630, 450), (30, 10), (630, 10)]"
proof -
  have h: "plots (canvas_of [1]) = [1] \<and> registry world_ex 1 = Some series1_ex \<and> skip series1_ex = 1
   \<and> sizeData series1_ex = 5 \<and> cells world_ex (data series1_ex) = Some [1, 3, 2, 5, 4]
   \<and> length (axisLimits (canvas_of [1])) = 4 \<and> length (drawSpace (canvas_of [1])) = 4
   \<and> length (axes (canvas_of [1])) = 2"
    by (simp add: ex_defs)
  obtain c' where c': "draw env_ex world_ex (canvas_of [1]) = Inr c'" "axisLimits c' = [0, 4, 1, 5]"
    using draw_limits_and_corners [of "canvas_of [1]" 1 world_ex series1_ex env_ex] h by blast
  have g: "getSize world_ex (canvas_of [1]) = (640, 480)" "SP_BORDER_WIDTH env_ex = 10"
    "\<And>a. getClearance env_ex a = 30"
    by (simp_all add: getSize_def ex_defs)
  from draw_limits_and_corners [of "canvas_of [1]" 1 world_ex series1_ex env_ex c'] c' g
  have "drawSpace c' = [(30, 450), (630, 450), (30, 10), (630, 10)]" by simp
  with c' h show ?thesis by simp
qed

section \<open>Termination of the render loop\<close>





lemma isolate_step:
  assumes "registry w i = Some s" and "cells w (data s) = Some buf" and "sizeData s \<le> length buf"
  shows "isolatePlotData w i =
           Inr (w\<lparr>cells := (cells w)(next_addr w \<mapsto> take (sizeData s) buf),
                  next_addr := Suc (next_addr w),
                  registry := (registry w)(i \<mapsto> s\<lparr>data := next_addr w\<rparr>)\<rparr>)"
  using assms by (simp add: isolatePlotData_def Series_isolateData_def read_array_def Let_def)

lemma for_plots_isolate:
  "fresh_next w \<Longrightarrow> distinct ps \<Longrightarrow>
   \<forall>i\<in>set ps. \<exists>s buf. registry w i = Some s \<and> cells w (data s) = Some buf \<and> sizeData s \<le> length buf \<Longrightarrow>
   \<exists>w'. for_plots isolatePlotData ps w = Inr w' \<and> fresh_next w'
        \<and> (\<forall>a\<in>dom (cells w). a \<in> dom (cells w'))
        \<and> (\<forall>j. j \<notin> set ps \<longrightarrow> registry w' j = registry w j)
        \<and> (\<forall>i\<in>set ps. \<exists>s. registry w' i = Some s \<and> next_addr w \<le> data s \<and> data s \<in> dom (cells w'))
        \<and> distinct (map (\<lambda>i. map_option data (registry w' i)) ps)"
proof (induction ps arbitrary: w)
  case Nil
  then show ?case by simp
next
  case (Cons i ps)
  from Cons.prems(3) obtain s buf where s: "registry w i = Some s" "cells w (data s) = Some buf"
    "sizeData s \<le> length buf" by auto
  let ?n = "next_addr w"
  let ?w1 = "w\<lparr>cells := (cells w)(?n \<mapsto> take (sizeData s) buf),
                  next_addr := Suc ?n,
                  registry := (registry w)(i \<mapsto> s\<lparr>data := ?n\<rparr>)\<rparr>"
  have st: "isolatePlotData w i = Inr ?w1" by (rule isolate_step[OF s])
  have nd: "?n \<notin> dom (cells w)" using Cons.prems(1) by (auto simp: fresh_next_def)
  have f1: "fresh_next ?w1" using Cons.prems(1) by (auto simp: fresh_next_def less_Suc_eq)
  have d1: "distinct ps" and ni: "i \<notin> set ps" using Cons.prems(2) by simp_all
  have p1: "\<forall>j\<in>set ps. \<exists>s buf. registry ?w1 j = Some s \<and> cells ?w1 (data s) = Some buf \<and> sizeData s \<le> length buf"
  proof
    fix j assume j: "j \<in> set ps"
    with Cons.prems(3) obtain s' buf' where s': "registry w j = Some s'" "cells w (data s') = Some buf'"
      "sizeData s' \<le> length buf'" by auto
    from s'(2) nd have "data s' \<noteq> ?n" by auto
    with s' j ni show "\<exists>s buf. registry ?w1 j = Some s \<and> cells ?w1 (data s) = Some buf \<and> sizeData s \<le> length buf"
      by auto
  qed
  from Cons.IH[OF f1 d1 p1] obtain w' where w': "for_plots isolatePlotData ps ?w1 = Inr w'"
    "fresh_next w'" "\<forall>a\<in>dom (cells ?w1). a \<in> dom (cells w')"
    "\<forall>j. j \<notin> set ps \<longrightarrow> registry w' j = registry ?w1 j"
    "\<forall>i\<in>set ps. \<exists>s. registry w' i = Some s \<and> next_addr ?w1 \<le> data s \<and> data s \<in> dom (cells w')"
    "distinct (map (\<lambda>i. map_option data (registry w' i)) ps)"
    by blast
  have ri: "registry w' i = Some (s\<lparr>data := ?n\<rparr>)" using w'(4) ni by simp
  have live: "?n \<in> dom (cells w')" using w'(3) by simp
  have "for_plots isolatePlotData (i # ps) w = Inr w'" using st w'(1) by simp
  moreover have "\<forall>a\<in>dom (cells w). a \<in> dom (cells w')" using w'(3) by auto
  moreover have "\<forall>j. j \<notin> set (i # ps) \<longrightarrow> registry w' j = registry w j" using w'(4) by auto
  moreover have "\<forall>k\<in>set (i # ps). \<exists>s. registry w' k = Some s \<and> ?n \<le> data s \<and> data s \<in> dom (cells w')"
  proof
    fix k assume "k \<in> set (i # ps)"
    then consider "k = i" | "k \<in> set ps" by auto
    then show "\<exists>s. registry w' k = Some s \<and> ?n \<le> data s \<and> data s \<in> dom (cells w')"
    proof cases
      case 1
      with ri live show ?thesis by simp
    next
      case 2
      with w'(5) obtain s' where "registry w' k = Some s'" "next_addr ?w1 \<le> data s'" "data s' \<in> dom (cells w')"
        by blast
      then show ?thesis by auto
    qed
  qed
  moreover have "distinct (map (\<lambda>i. map_option data (registry w' i)) (i # ps))"
  proof -
    have "map_option data (registry w' i) \<notin> (\<lambda>i. map_option data (registry w' i)) ` set ps"
    proof
      assume "map_option data (registry w' i) \<in> (\<lambda>i. map_option data (registry w' i)) ` set ps"
      then obtain j where j: "j \<in> set ps"
        and e: "map_option data (registry w' i) = map_option data (registry w' j)" by blast
      from w'(5) j obtain s' where s': "registry w' j = Some s'" "next_addr ?w1 \<le> data s'" by blast
      from e ri s'(1) have "data s' = ?n" by simp
      with s'(2) show False by simp
    qed
    with w'(6) show ?thesis by simp
  qed
  ultimately show ?case using w'(2) by blast
qed

lemma setFramerate_static_private_copies:
  assumes "fresh_next w" and "distinct (plots c)" and "framerate c \<noteq> SP_STATIC env"
    and "\<forall>i\<in>set (plots c). \<exists>s buf. registry w i = Some s \<and> cells w (data s) = Some buf \<and> sizeData s \<le> length buf"
  shows "\<exists>w'. setFramerate env w c (SP_STATIC env) = Inr (w', c\<lparr>framerate := SP_STATIC env\<rparr>)
              \<and> private_copies w' (plots c)"
proof -
  from for_plots_isolate[OF assms(1,2,4)] obtain w' where
    w': "for_plots isolatePlotData (plots c) w = Inr w'"
    "\<forall>i\<in>set (plots c). \<exists>s. registry w' i = Some s \<and> next_addr w \<le> data s \<and> data s \<in> dom (cells w')"
    "distinct (map (\<lambda>i. map_option data (registry w' i)) (plots c))"
    by blast
  from w'(2,3) have "private_copies w' (plots c)"
    by (auto simp: private_copies_def list_all_iff split: option.splits)
  with w'(1) assms(3) show ?thesis by (simp add: setFramerate_def)
qed




end
